theory Spec2Isabelle
  imports Complex_Main "HOL-Library.Multiset"
begin

section \<open>The text-to-speech component: data model\<close>

text \<open>
  The embedding follows the component \<open>TextToSpeech\<close> in the revision that keeps an
  \<open>apiError\<close> state (the third document of \<open>src/src/App.tsx\<close>, lines 114 to 483). The
  older revision under \<open>src/unnamed/part_000\<close> has the same handlers without the error
  state and without the \<open>try\<close>/\<open>catch\<close> wrappers, so that an exception there leaves the
  effect instead of being recorded.

  The component is a React function component. Its \<open>useState\<close> cells are the fields of
  the record \<open>state\<close>, the \<open>useRef\<close> cell \<open>synth\<close> is one more field, and each handler is
  a function from the state before the event to the state after React has committed
  the updates the handler queued. The two menus and the two sliders of the markup are
  elements of the platform; what they deliver to a handler is modelled next to the
  handler. JavaScript numbers are modelled as reals: the component stores and
  forwards them and never calculates with them, and the rounding a slider does to its
  steps is taken in exact arithmetic.
\<close>

record voice =
  name :: string
  lang :: string
  localService :: bool
  default_flag :: bool
  voiceURI :: string

text \<open>
  \<open>{ [key: string]: Voice[] }\<close>: an object used as a dictionary. Every key built
  below ends in a closing parenthesis, so it is neither an array index (which
  \<open>Object.keys\<close> would list first) nor the name of an inherited property. \<open>Object.keys\<close>
  then lists the keys in insertion order, and the object is an association list in
  insertion order, read with \<open>map_of\<close>.
\<close>

type_synonym catalog = "(string \<times> voice list) list"

subsection \<open>The grouping step of \<open>loadVoices\<close>\<close>

text \<open>\<open>s.split(sep)\<close> for a one-character separator; the result is never empty.\<close>

fun split_on :: "char \<Rightarrow> string \<Rightarrow> string list" where
  "split_on sep [] = [[]]"
| "split_on sep (c # cs) =
     (if c = sep then [] # split_on sep cs
      else (case split_on sep cs of
              p # ps \<Rightarrow> (c # p) # ps
            | [] \<Rightarrow> [[c]]))"

text \<open>\<open>voice.lang.split('-')[0]\<close>\<close>

definition langCode :: "voice \<Rightarrow> string" where
  "langCode v = (case split_on (CHR ''-'') (lang v) of p # _ \<Rightarrow> p | [] \<Rightarrow> [])"

text \<open>
  \<open>new Intl.DisplayNames([navigator.language], { type: 'language' }).of(langCode)\<close>: the
  platform's resolver is a parameter \<open>dn\<close>. It returns a name, or \<open>undefined\<close>, or it
  throws (a \<open>RangeError\<close> for a subtag that is not a well-formed language identifier,
  such as the empty string or \<open>en_US\<close>).
\<close>

datatype error = RangeError

datatype resolved = Throws | Undefined | Name string

type_synonym resolver = "string \<Rightarrow> resolved"

text \<open>
  \<open>... .of(langCode) || langCode\<close>: the operator \<open>||\<close> takes its right operand when the
  left one is falsy, which is \<open>undefined\<close> or the empty string. An exception leaves the
  expression.
\<close>

definition langName :: "resolver \<Rightarrow> string \<Rightarrow> error + string" where
  "langName dn code =
     (case dn code of
        Throws \<Rightarrow> Inl RangeError
      | Undefined \<Rightarrow> Inr code
      | Name n \<Rightarrow> Inr (if n = [] then code else n))"

text \<open>The template string \<open>`${langName} (${langCode})`\<close>.\<close>

definition langKey :: "resolver \<Rightarrow> voice \<Rightarrow> error + string" where
  "langKey dn v =
     (case langName dn (langCode v) of
        Inl e \<Rightarrow> Inl e
      | Inr n \<Rightarrow> Inr (n @ '' ('' @ langCode v @ '')''))"

text \<open>
  \<open>if (!langGroups[langKey]) { langGroups[langKey] = []; }\<close>: an array is truthy even
  when empty, so the branch is taken exactly when the key is absent; a new key goes
  to the end of the insertion order.
\<close>

definition ensureGroup :: "string \<Rightarrow> catalog \<Rightarrow> catalog" where
  "ensureGroup k g = (case map_of g k of None \<Rightarrow> g @ [(k, [])] | Some _ \<Rightarrow> g)"

text \<open>\<open>langGroups[langKey].push(voice)\<close>\<close>

definition pushVoice :: "string \<Rightarrow> voice \<Rightarrow> catalog \<Rightarrow> catalog" where
  "pushVoice k v g = map (\<lambda>(k', vs). if k' = k then (k', vs @ [v]) else (k', vs)) g"

text \<open>
  The body of the \<open>forEach\<close> callback (lines 171 to 180), and the loop from the empty
  object: an exception in the callback ends the loop and leaves it.
\<close>

definition groupStep :: "resolver \<Rightarrow> catalog \<Rightarrow> voice \<Rightarrow> error + catalog" where
  "groupStep dn g v =
     (case langKey dn v of
        Inl e \<Rightarrow> Inl e
      | Inr k \<Rightarrow> Inr (pushVoice k v (ensureGroup k g)))"

fun forEachVoice :: "resolver \<Rightarrow> catalog \<Rightarrow> voice list \<Rightarrow> error + catalog" where
  "forEachVoice dn g [] = Inr g"
| "forEachVoice dn g (v # vs) =
     (case groupStep dn g v of
        Inl e \<Rightarrow> Inl e
      | Inr g' \<Rightarrow> forEachVoice dn g' vs)"

definition groupVoices :: "resolver \<Rightarrow> voice list \<Rightarrow> error + catalog" where
  "groupVoices dn vs = forEachVoice dn [] vs"

subsection \<open>The speech capability\<close>

text \<open>
  \<open>window.speechSynthesis\<close> is the platform's object, not code of the component. The
  model keeps what the component reads from it (the list \<open>getVoices()\<close> returns, the
  flag \<open>speaking\<close>, whether the property \<open>onvoiceschanged\<close> exists) and records, oldest
  first, the calls the component makes on it. The flag \<open>speaking\<close> is the platform's
  report at the moment it is read; the calls do not change it in the model. On a
  conforming platform \<open>getVoices\<close>, \<open>cancel\<close>, \<open>speak\<close> and the utterance constructor do
  not throw, whatever their arguments; the one call of the component whose outcome
  depends on its input is the resolver \<open>dn\<close> above.
\<close>

record utterance =
  u_text :: string
  u_voice :: "voice option"
  u_rate :: real
  u_pitch :: real

datatype call = Cancel | Speak utterance

record capability =
  getVoices :: "voice list"
  speaking :: bool
  onvoiceschanged :: "bool option"
  calls :: "call list"

text \<open>
  \<open>onvoiceschanged\<close>: \<open>None\<close> when the property is \<open>undefined\<close>, \<open>Some False\<close> when it is
  \<open>null\<close>, \<open>Some True\<close> once \<open>loadVoices\<close> is installed.
\<close>

definition cancel :: "capability \<Rightarrow> capability" where
  "cancel c = c\<lparr>calls := calls c @ [Cancel]\<rparr>"

definition submit :: "utterance \<Rightarrow> capability \<Rightarrow> capability" where
  "submit u c = c\<lparr>calls := calls c @ [Speak u]\<rparr>"

text \<open>
  The utterances handed to the capability that no later \<open>cancel\<close> has removed: per the
  Web Speech API \<open>cancel()\<close> removes every utterance from the queue and \<open>speak(u)\<close>
  appends \<open>u\<close> to it. Any utterance that is active or pending is among these.
\<close>

definition submittedSinceCancel :: "call list \<Rightarrow> utterance list" where
  "submittedSinceCancel cs =
     foldl (\<lambda>q c. case c of Cancel \<Rightarrow> [] | Speak u \<Rightarrow> q @ [u]) [] cs"

subsection \<open>The component's state\<close>

text \<open>
  \<open>textS\<close> is the state cell \<open>text\<close>. The cell \<open>isMobile\<close> only selects banners in the
  markup and is left out.
\<close>

record state =
  textS :: string
  voices :: "voice list"
  selectedVoice :: string
  rate :: real
  pitch :: real
  languages :: catalog
  selectedLanguage :: string
  isSpeaking :: bool
  loadingVoices :: bool
  apiError :: "string option"
  synth :: "capability option"

text \<open>The initial values of the \<open>useState\<close> and \<open>useRef\<close> cells (lines 126 to 137).\<close>

definition initState :: state where
  "initState =
     \<lparr> textS = ''Hello! This is a text-to-speech converter. You can type any text here and have it spoken in different languages and voices.'',
       voices = [],
       selectedVoice = [],
       rate = 1,
       pitch = 1,
       languages = [],
       selectedLanguage = [],
       isSpeaking = False,
       loadingVoices = True,
       apiError = None,
       synth = None \<rparr>"

subsection \<open>Voice discovery\<close>

text \<open>\<open>synth.current?.getVoices() || []\<close>\<close>

definition availableVoices :: "state \<Rightarrow> voice list" where
  "availableVoices s = (case synth s of None \<Rightarrow> [] | Some c \<Rightarrow> getVoices c)"

text \<open>
  \<open>loadVoices\<close> (lines 162 to 205). It is created inside the effect that runs once
  after the first render, so the state variables it reads (\<open>loadingVoices\<close>) are those
  of that render for ever; \<open>r\<close> is that render's state. The setters act on the current
  state \<open>s\<close>. When the grouping loop throws, \<open>setLoadingVoices(false)\<close> and \<open>setVoices\<close>
  have run and the \<open>catch\<close> block (lines 200 to 204) records the error; \<open>setLanguages\<close>
  and the selection setters are not reached. \<open>Object.keys(langGroups)[0]\<close> is the first
  key in insertion order; a key taken from \<open>Object.keys\<close> is present, so the last case
  of the selection only covers an empty group (\<open>langGroups[defaultLang].length > 0\<close>
  false).
\<close>

definition loadVoices :: "resolver \<Rightarrow> state \<Rightarrow> state \<Rightarrow> state" where
  "loadVoices dn r s =
     (let available = availableVoices s in
      if available \<noteq> [] then
        (let s1 = s\<lparr>loadingVoices := False, voices := available\<rparr> in
         case groupVoices dn available of
           Inl e \<Rightarrow>
             s1\<lparr>apiError := Some ''Error loading voices. Your browser may have limited TTS support.'',
                loadingVoices := False\<rparr>
         | Inr langGroups \<Rightarrow>
             (let s2 = s1\<lparr>languages := langGroups\<rparr>;
                  s3 = (case map fst langGroups of
                          [] \<Rightarrow> s2
                        | defaultLang # _ \<Rightarrow>
                            (let s' = s2\<lparr>selectedLanguage := defaultLang\<rparr> in
                             case map_of langGroups defaultLang of
                               Some (v # _) \<Rightarrow> s'\<lparr>selectedVoice := name v\<rparr>
                             | _ \<Rightarrow> s'))
              in s3\<lparr>apiError := None\<rparr>))
      else if \<not> loadingVoices r
           then s\<lparr>apiError := Some ''No voices detected. This may be due to browser restrictions on mobile.''\<rparr>
           else s)"

text \<open>
  The effect with dependencies \<open>[selectedLanguage, languages]\<close> (lines 243 to 247).
  The empty string is falsy; \<open>languages[selectedLanguage]?.length > 0\<close> is false for an
  absent key and for an empty group.
\<close>

definition languageEffect :: "state \<Rightarrow> state" where
  "languageEffect s =
     (if selectedLanguage s \<noteq> [] then
        (case map_of (languages s) (selectedLanguage s) of
           Some (v # _) \<Rightarrow> s\<lparr>selectedVoice := name v\<rparr>
         | _ \<Rightarrow> s)
      else s)"

text \<open>
  Whether a run of \<open>loadVoices\<close> in state \<open>s\<close> reaches \<open>setLanguages\<close>: there are voices
  and the grouping loop does not throw.
\<close>

definition languagesReplaced :: "resolver \<Rightarrow> state \<Rightarrow> bool" where
  "languagesReplaced dn s =
     (availableVoices s \<noteq> [] \<and>
      (case groupVoices dn (availableVoices s) of Inl _ \<Rightarrow> False | Inr _ \<Rightarrow> True))"

text \<open>
  One run of \<open>loadVoices\<close> as an event: React commits the queued updates and then runs
  the effect above when \<open>setLanguages\<close> was called (a fresh object, so the dependency
  has changed); otherwise neither dependency changes and the effect is skipped.
\<close>

definition runLoadVoices :: "resolver \<Rightarrow> state \<Rightarrow> state" where
  "runLoadVoices dn s =
     (let s' = loadVoices dn initState s in
      if languagesReplaced dn s then languageEffect s' else s')"

text \<open>
  \<open>if (synth.current?.onvoiceschanged !== undefined) synth.current.onvoiceschanged = loadVoices\<close>
\<close>

definition subscribe :: "state \<Rightarrow> state" where
  "subscribe s =
     (case synth s of
        None \<Rightarrow> s
      | Some c \<Rightarrow>
          (case onvoiceschanged c of
             None \<Rightarrow> s
           | Some _ \<Rightarrow> s\<lparr>synth := Some (c\<lparr>onvoiceschanged := Some True\<rparr>)\<rparr>))"

text \<open>
  The initialising effect (lines 156 to 240) in a browser: \<open>w\<close> is
  \<open>window.speechSynthesis\<close>, \<open>None\<close> where the platform has none. It stores the
  reference, reads the voices once, subscribes, and starts the timer.
\<close>

definition mount :: "resolver \<Rightarrow> capability option \<Rightarrow> state" where
  "mount dn w = subscribe (runLoadVoices dn (initState\<lparr>synth := w\<rparr>))"


text \<open>
  The timer callback (lines 216 to 226). \<open>voices\<close> and \<open>apiError\<close> are read from the
  render \<open>r\<close> in which the effect was created, as in \<open>loadVoices\<close>. \<open>!apiError\<close> holds
  for \<open>null\<close> and for the empty string.
\<close>

definition timeoutCallback :: "resolver \<Rightarrow> state \<Rightarrow> state \<Rightarrow> state" where
  "timeoutCallback dn r s =
     (let s1 = (if voices r = [] then loadVoices dn r s else s) in
      if voices r = [] then
        (let s2 = s1\<lparr>loadingVoices := False\<rparr> in
         if apiError r = None \<or> apiError r = Some []
         then s2\<lparr>apiError := Some ''Unable to load voices. This may be due to browser restrictions.''\<rparr>
         else s2)
      else s1)"

definition timeoutFired :: "resolver \<Rightarrow> state \<Rightarrow> state" where
  "timeoutFired dn s =
     (let s' = timeoutCallback dn initState s in
      if languagesReplaced dn s then languageEffect s' else s')"

subsection \<open>Selection and parameter controls\<close>

text \<open>
  \<open>onChange={(e) => setSelectedLanguage(e.target.value)}\<close> (line 324). Setting a state
  cell to the value it has changes nothing and runs no effect; otherwise the
  dependency \<open>selectedLanguage\<close> has changed and the effect runs after the update.
\<close>

definition onLanguageChange :: "string \<Rightarrow> state \<Rightarrow> state" where
  "onLanguageChange k s =
     (if k = selectedLanguage s then s
      else languageEffect (s\<lparr>selectedLanguage := k\<rparr>))"

text \<open>\<open>onChange={(e) => setSelectedVoice(e.target.value)}\<close> (line 350).\<close>

definition onVoiceChange :: "string \<Rightarrow> state \<Rightarrow> state" where
  "onVoiceChange n s = s\<lparr>selectedVoice := n\<rparr>"

text \<open>
  The voice menu (lines 346 to 366) is a \<open>select\<close> element with the value
  \<open>selectedVoice\<close> and the handler above. It is disabled while the voices load and
  while no language is selected. Its options are a placeholder while loading, the
  names of the voices of the selected language when \<open>languages[selectedLanguage]\<close>
  exists, and a placeholder otherwise; an option without a \<open>value\<close> attribute has its
  text as value.
\<close>

definition voiceSelectDisabled :: "state \<Rightarrow> bool" where
  "voiceSelectDisabled s = (loadingVoices s \<or> selectedLanguage s = [])"

definition voiceOptions :: "state \<Rightarrow> string list" where
  "voiceOptions s =
     (if loadingVoices s then [''Loading voices...'']
      else if selectedLanguage s \<noteq> [] then
        (case map_of (languages s) (selectedLanguage s) of
           Some grp \<Rightarrow> map name grp
         | None \<Rightarrow> [''No voices available''])
      else [''No voices available''])"

text \<open>
  What a \<open>select\<close> element does: it shows the option whose value is the element's
  value, or the first option when no option has that value; it fires a change event
  only when it is enabled and the user picks an option other than the one shown, and
  \<open>e.target.value\<close> is then the value of the option picked.
\<close>

definition shownOption :: "string list \<Rightarrow> string \<Rightarrow> string option" where
  "shownOption opts val =
     (if val \<in> set opts then Some val
      else (case opts of [] \<Rightarrow> None | a # _ \<Rightarrow> Some a))"

definition voiceSelectDelivers :: "string \<Rightarrow> state \<Rightarrow> bool" where
  "voiceSelectDelivers n s =
     (\<not> voiceSelectDisabled s \<and> n \<in> set (voiceOptions s)
      \<and> shownOption (voiceOptions s) (selectedVoice s) \<noteq> Some n)"

text \<open>An attempt to set the voice name \<open>n\<close> through the menu.\<close>

definition voiceSelectChange :: "string \<Rightarrow> state \<Rightarrow> state" where
  "voiceSelectChange n s = (if voiceSelectDelivers n s then onVoiceChange n s else s)"

text \<open>
  \<open>onChange={(e) => setRate(parseFloat(e.target.value))}\<close> (line 385) and the same for
  the pitch (line 405); \<open>x\<close> is the number \<open>parseFloat\<close> returns.
\<close>

definition onRateChange :: "real \<Rightarrow> state \<Rightarrow> state" where
  "onRateChange x s = s\<lparr>rate := x\<rparr>"

definition onPitchChange :: "real \<Rightarrow> state \<Rightarrow> state" where
  "onPitchChange x s = s\<lparr>pitch := x\<rparr>"

text \<open>
  The two sliders (lines 378 to 407) are \<open>input\<close> elements of type \<open>range\<close> with
  \<open>min="0.5" max="2" step="0.1"\<close>. What a range input does: its value is sanitised
  before a handler reads it. A number below \<open>min\<close> becomes \<open>min\<close>, a number above \<open>max\<close>
  becomes \<open>max\<close>, and a number that is not \<open>min\<close> plus a multiple of \<open>step\<close> becomes the
  nearest such number within the range, the greater one when two are equally near.
\<close>

definition clampTo :: "real \<Rightarrow> real \<Rightarrow> real \<Rightarrow> real" where
  "clampTo lo hi x = (if x < lo then lo else if hi < x then hi else x)"

definition rangeValue :: "real \<Rightarrow> real \<Rightarrow> real \<Rightarrow> real \<Rightarrow> real" where
  "rangeValue lo hi st x =
     (let c = clampTo lo hi x;
          v = lo + of_int \<lfloor>(c - lo) / st + 1 / 2\<rfloor> * st
      in if hi < v then v - st else v)"

text \<open>An attempt to set a slider to the number \<open>x\<close>.\<close>

definition rateSliderChange :: "real \<Rightarrow> state \<Rightarrow> state" where
  "rateSliderChange x s = onRateChange (rangeValue 0.5 2 0.1 x) s"

definition pitchSliderChange :: "real \<Rightarrow> state \<Rightarrow> state" where
  "pitchSliderChange x s = onPitchChange (rangeValue 0.5 2 0.1 x) s"

text \<open>\<open>onChange={(e) => setText(e.target.value)}\<close> (line 419).\<close>

definition onTextChange :: "string \<Rightarrow> state \<Rightarrow> state" where
  "onTextChange t s = s\<lparr>textS := t\<rparr>"

text \<open>The voices of the selected language, and the invariant of the data model.\<close>

definition currentGroup :: "state \<Rightarrow> voice list" where
  "currentGroup s =
     (case map_of (languages s) (selectedLanguage s) of None \<Rightarrow> [] | Some grp \<Rightarrow> grp)"

definition selectionInvariant :: "state \<Rightarrow> bool" where
  "selectionInvariant s =
     (selectedVoice s = [] \<or> selectedVoice s \<in> set (map name (currentGroup s)))"

subsection \<open>Playback\<close>

text \<open>
  \<open>new SpeechSynthesisUtterance(text)\<close> with \<open>voice\<close>, \<open>rate\<close> and \<open>pitch\<close> set (lines 258
  to 267); \<open>voices.find\<close> gives the first voice of that name, or \<open>undefined\<close>, and then
  \<open>utterance.voice\<close> is left unset.
\<close>

definition newUtterance :: "state \<Rightarrow> utterance" where
  "newUtterance s =
     \<lparr> u_text = textS s,
       u_voice = find (\<lambda>v. name v = selectedVoice s) (voices s),
       u_rate = rate s,
       u_pitch = pitch s \<rparr>"

text \<open>\<open>speak\<close> (lines 250 to 285). The empty string is falsy.\<close>

definition speak :: "state \<Rightarrow> state" where
  "speak s =
     (case synth s of
        None \<Rightarrow> s
      | Some c \<Rightarrow>
          if textS s = [] then s
          else
            (let c1 = (if speaking c then cancel c else c);
                 c2 = submit (newUtterance s) c1
             in s\<lparr>synth := Some c2, apiError := None\<rparr>))"

text \<open>The calls made on the capability so far; none when there is no capability.\<close>

definition issuedCalls :: "state \<Rightarrow> call list" where
  "issuedCalls s = (case synth s of None \<Rightarrow> [] | Some c \<Rightarrow> calls c)"

text \<open>\<open>stopSpeaking\<close> (lines 287 to 292).\<close>

definition stopSpeaking :: "state \<Rightarrow> state" where
  "stopSpeaking s =
     (case synth s of
        None \<Rightarrow> s
      | Some c \<Rightarrow> s\<lparr>synth := Some (cancel c), isSpeaking := False\<rparr>)"

text \<open>The callbacks \<open>onstart\<close>, \<open>onend\<close> and \<open>onerror\<close> of an utterance (lines 270 to 276).\<close>

definition utteranceStarted :: "state \<Rightarrow> state" where
  "utteranceStarted s = s\<lparr>isSpeaking := True\<rparr>"

definition utteranceEnded :: "state \<Rightarrow> state" where
  "utteranceEnded s = s\<lparr>isSpeaking := False\<rparr>"

definition utteranceFailed :: "string \<Rightarrow> state \<Rightarrow> state" where
  "utteranceFailed e s = s\<lparr>isSpeaking := False, apiError := Some (''Error playing speech: '' @ e)\<rparr>"

text \<open>The platform changes what it reports in \<open>speaking\<close>.\<close>

definition platformReports :: "bool \<Rightarrow> state \<Rightarrow> state" where
  "platformReports b s =
     (case synth s of None \<Rightarrow> s | Some c \<Rightarrow> s\<lparr>synth := Some (c\<lparr>speaking := b\<rparr>)\<rparr>)"


text \<open>\<open>disabled={!text || loadingVoices || !selectedVoice}\<close> on the Speak button (line 430).\<close>

definition speakDisabled :: "state \<Rightarrow> bool" where
  "speakDisabled s = (textS s = [] \<or> loadingVoices s \<or> selectedVoice s = [])"

subsection \<open>A small platform for the examples\<close>

definition dn0 :: resolver where
  "dn0 code =
     (if code = ''en'' then Name ''English''
      else if code = ''fr'' then Name ''French''
      else if code = ''und'' then Name []
      else if code = [] \<or> CHR ''_'' \<in> set code then Throws
      else Undefined)"

definition alice :: voice where
  "alice = \<lparr> name = ''Alice'', lang = ''en-US'', localService = True,
             default_flag = True, voiceURI = ''urn:alice'' \<rparr>"

definition bob :: voice where
  "bob = \<lparr> name = ''Bob'', lang = ''en-GB'', localService = True,
           default_flag = False, voiceURI = ''urn:bob'' \<rparr>"

definition claire :: voice where
  "claire = \<lparr> name = ''Claire'', lang = ''fr-FR'', localService = False,
              default_flag = False, voiceURI = ''urn:claire'' \<rparr>"

definition tlh :: voice where
  "tlh = \<lparr> name = ''Worf'', lang = ''tlh'', localService = False,
           default_flag = False, voiceURI = ''urn:worf'' \<rparr>"

definition emile :: voice where
  "emile = \<lparr> name = ''Emile'', lang = ''fr-CA'', localService = False,
             default_flag = False, voiceURI = ''urn:emile'' \<rparr>"

definition nemo :: voice where
  "nemo = \<lparr> name = ''Nemo'', lang = ''und'', localService = False,
            default_flag = False, voiceURI = ''urn:nemo'' \<rparr>"

definition droid :: voice where
  "droid = \<lparr> name = ''Droid'', lang = ''en_US'', localService = True,
             default_flag = False, voiceURI = ''urn:droid'' \<rparr>"

definition cap0 :: capability where
  "cap0 = \<lparr> getVoices = [alice, claire, bob, tlh], speaking = False,
            onvoiceschanged = Some False, calls = [] \<rparr>"

definition silent :: capability where
  "silent = \<lparr> getVoices = [], speaking = False, onvoiceschanged = Some False, calls = [] \<rparr>"




section \<open>Grouping\<close>





lemma langKey_Inr_nonempty: "langKey dn v = Inr k \<Longrightarrow> k \<noteq> []"
  by (auto simp: langKey_def split: sum.splits)

lemma langKey_Inr_last: "langKey dn v = Inr k \<Longrightarrow> last k = CHR '')''"
  by (auto simp: langKey_def split: sum.splits)

lemma keys_pushVoice: "map fst (pushVoice k w h) = map fst h"
  unfolding pushVoice_def by (induction h) auto

lemma keys_ensureGroup:
  "map fst (ensureGroup k h) = map fst h @ (if k \<in> set (map fst h) then [] else [k])"
proof (cases "map_of h k")
  case None
  then have "k \<notin> fst ` set h" by (simp add: map_of_eq_None_iff)
  with None show ?thesis by (simp add: ensureGroup_def)
next
  case (Some grp)
  then have "(k, grp) \<in> set h" by (rule map_of_SomeD)
  then have "k \<in> fst ` set h" by force
  with Some show ?thesis by (simp add: ensureGroup_def)
qed

lemma keys_push:
  "map fst (pushVoice k v (ensureGroup k g)) =
     map fst g @ (if k \<in> set (map fst g) then [] else [k])"
  by (simp only: keys_pushVoice keys_ensureGroup)


lemma map_of_pushVoice:
  "map_of (pushVoice k v g) k' =
     (if k' = k then map_option (\<lambda>grp. grp @ [v]) (map_of g k) else map_of g k')"
  unfolding pushVoice_def by (induction g) auto

lemma map_of_ensureGroup:
  "map_of (ensureGroup k g) k' =
     (if k' = k \<and> map_of g k = None then Some [] else map_of g k')"
  unfolding ensureGroup_def by (auto split: option.splits simp: map_add_def)

lemma map_of_push:
  "map_of (pushVoice k v (ensureGroup k g)) k' =
     (if k' = k
      then Some ((case map_of g k of None \<Rightarrow> [] | Some grp \<Rightarrow> grp) @ [v])
      else map_of g k')"
  by (auto simp: map_of_pushVoice map_of_ensureGroup split: option.splits)




lemma forEachVoice_ConsE:
  assumes "forEachVoice dn g (v # vs) = Inr g'"
  obtains k where "langKey dn v = Inr k"
    and "forEachVoice dn (pushVoice k v (ensureGroup k g)) vs = Inr g'"
  using assms by (auto simp: groupStep_def split: sum.splits)


lemma forEachVoice_keys:
  "forEachVoice dn g vs = Inr g' \<Longrightarrow> \<exists>ks. map fst g' = map fst g @ ks"
proof (induction vs arbitrary: g)
  case Nil
  then show ?case by simp
next
  case (Cons v vs)
  from Cons.prems obtain k
    where "forEachVoice dn (pushVoice k v (ensureGroup k g)) vs = Inr g'"
    by (rule forEachVoice_ConsE)
  then obtain ks where "map fst g' = map fst (pushVoice k v (ensureGroup k g)) @ ks"
    using Cons.IH by blast
  then show ?case by (simp add: keys_push)
qed

lemma forEachVoice_map_of:
  "forEachVoice dn g vs = Inr g' \<Longrightarrow>
   map_of g' k =
     (case map_of g k of
        None \<Rightarrow> (if Inr k \<in> langKey dn ` set vs
                 then Some (filter (\<lambda>v. langKey dn v = Inr k) vs) else None)
      | Some grp \<Rightarrow> Some (grp @ filter (\<lambda>v. langKey dn v = Inr k) vs))"
proof (induction vs arbitrary: g)
  case Nil
  then show ?case by (simp split: option.splits)
next
  case (Cons v vs)
  from Cons.prems obtain k0
    where k0: "langKey dn v = Inr k0"
      and r: "forEachVoice dn (pushVoice k0 v (ensureGroup k0 g)) vs = Inr g'"
    by (rule forEachVoice_ConsE)
  show ?case
    by (simp only: Cons.IH [OF r] map_of_push)
       (auto simp: k0 split: option.splits)
qed





lemma map_of_groupVoices:
  "groupVoices dn vs = Inr g \<Longrightarrow>
   map_of g k =
     (if Inr k \<in> langKey dn ` set vs
      then Some (filter (\<lambda>v. langKey dn v = Inr k) vs) else None)"
  unfolding groupVoices_def by (drule forEachVoice_map_of [where k = k]) simp


lemma langCode_examples:
  "langCode alice = ''en''" "langCode bob = ''en''" "langCode claire = ''fr''"
  "langCode tlh = ''tlh''" "langCode emile = ''fr''" "langCode nemo = ''und''"
  "langCode droid = ''en_US''"
  by (simp_all add: langCode_def alice_def bob_def claire_def tlh_def emile_def nemo_def
      droid_def)

lemma dn0_examples:
  "dn0 ''en'' = Name ''English''" "dn0 ''fr'' = Name ''French''" "dn0 ''tlh'' = Undefined"
  "dn0 ''und'' = Name []" "dn0 ''en_US'' = Throws"
  by (simp_all add: dn0_def)

lemma langKey_examples:
  "langKey dn0 alice = Inr ''English (en)''" "langKey dn0 bob = Inr ''English (en)''"
  "langKey dn0 claire = Inr ''French (fr)''" "langKey dn0 tlh = Inr ''tlh (tlh)''"
  "langKey dn0 emile = Inr ''French (fr)''" "langKey dn0 nemo = Inr ''und (und)''"
  "langKey dn0 droid = Inl RangeError"
  by (simp_all add: langKey_def langName_def langCode_examples dn0_examples)


lemma groupVoices_Cons:
  assumes "groupVoices dn (v # vs) = Inr g"
  obtains k ks where "langKey dn v = Inr k" and "map fst g = k # ks"
    and "map_of g k = Some (v # filter (\<lambda>w. langKey dn w = Inr k) vs)"
proof -
  from assms have "forEachVoice dn [] (v # vs) = Inr g" by (simp add: groupVoices_def)
  then obtain k where k: "langKey dn v = Inr k"
    and r: "forEachVoice dn (pushVoice k v (ensureGroup k [])) vs = Inr g"
    by (rule forEachVoice_ConsE)
  from forEachVoice_keys [OF r] obtain ks where ks: "map fst g = k # ks"
    by (auto simp: keys_push)
  have "map_of g k = Some (v # filter (\<lambda>w. langKey dn w = Inr k) vs)"
    using k by (simp add: map_of_groupVoices [OF assms])
  with k ks show ?thesis by (rule that)
qed

lemma groupVoices_examples:
  "groupVoices dn0 [alice, claire, bob, tlh] =
     Inr [(''English (en)'', [alice, bob]), (''French (fr)'', [claire]), (''tlh (tlh)'', [tlh])]"
  "groupVoices dn0 [alice, claire, bob, tlh, emile] =
     Inr [(''English (en)'', [alice, bob]), (''French (fr)'', [claire, emile]),
          (''tlh (tlh)'', [tlh])]"
  "groupVoices dn0 [alice, droid, claire] = Inl RangeError"
  by (simp_all add: groupVoices_def groupStep_def langKey_examples ensureGroup_def pushVoice_def)

section \<open>Loading the voices\<close>

lemma loadVoices_loaded:
  assumes "synth s = Some c" and "getVoices c = v # vs"
    and "groupVoices dn (v # vs) = Inr g" and "langKey dn v = Inr k"
  shows "loadVoices dn r s =
           s\<lparr>loadingVoices := False, voices := v # vs, languages := g,
             selectedLanguage := k, selectedVoice := name v, apiError := None\<rparr>"
proof -
  from assms(3) obtain k' ks where "langKey dn v = Inr k'" and ks: "map fst g = k' # ks"
    and m: "map_of g k' = Some (v # filter (\<lambda>w. langKey dn w = Inr k') vs)"
    by (rule groupVoices_Cons)
  with assms(4) have k: "k' = k" by simp
  have a: "availableVoices s = v # vs" using assms(1,2) by (simp add: availableVoices_def)
  show ?thesis
    unfolding loadVoices_def Let_def a
    using ks m by (simp add: assms(3) k)
qed


lemma runLoadVoices_loaded:
  assumes "synth s = Some c" and "getVoices c = v # vs"
    and "groupVoices dn (v # vs) = Inr g" and "langKey dn v = Inr k"
  shows "runLoadVoices dn s =
           s\<lparr>loadingVoices := False, voices := v # vs, languages := g,
             selectedLanguage := k, selectedVoice := name v, apiError := None\<rparr>"
proof -
  from assms(3) obtain k' where "langKey dn v = Inr k'"
    and m: "map_of g k' = Some (v # filter (\<lambda>w. langKey dn w = Inr k') vs)"
    by (rule groupVoices_Cons)
  with assms(4) have m': "map_of g k = Some (v # filter (\<lambda>w. langKey dn w = Inr k) vs)"
    by simp
  have n: "k \<noteq> []" using assms(4) by (rule langKey_Inr_nonempty)
  have a: "availableVoices s = v # vs" using assms(1,2) by (simp add: availableVoices_def)
  have l: "languagesReplaced dn s" by (simp add: languagesReplaced_def a assms(3))
  show ?thesis
    unfolding runLoadVoices_def Let_def loadVoices_loaded [OF assms]
    by (simp add: l languageEffect_def n m')
qed


lemma name_examples:
  "name alice = ''Alice''" "name bob = ''Bob''" "name claire = ''Claire''" "name tlh = ''Worf''"
  "name emile = ''Emile''" "name nemo = ''Nemo''" "name droid = ''Droid''"
  by (simp_all add: alice_def bob_def claire_def tlh_def emile_def nemo_def droid_def)

lemma cap0_fields:
  "getVoices cap0 = [alice, claire, bob, tlh]" "speaking cap0 = False"
  "onvoiceschanged cap0 = Some False" "calls cap0 = []"
  by (simp_all add: cap0_def)


lemma mount_cap0:
  "mount dn0 (Some cap0) =
     initState\<lparr>synth := Some (cap0\<lparr>onvoiceschanged := Some True\<rparr>), loadingVoices := False,
       voices := [alice, claire, bob, tlh],
       languages := [(''English (en)'', [alice, bob]), (''French (fr)'', [claire]),
                     (''tlh (tlh)'', [tlh])],
       selectedLanguage := ''English (en)'', selectedVoice := ''Alice'', apiError := None\<rparr>"
proof -
  have r: "runLoadVoices dn0 (initState\<lparr>synth := Some cap0\<rparr>) =
     initState\<lparr>synth := Some cap0, loadingVoices := False,
       voices := alice # [claire, bob, tlh],
       languages := [(''English (en)'', [alice, bob]), (''French (fr)'', [claire]),
                     (''tlh (tlh)'', [tlh])],
       selectedLanguage := ''English (en)'', selectedVoice := name alice, apiError := None\<rparr>"
    by (rule runLoadVoices_loaded [where c = cap0])
       (simp_all add: cap0_fields groupVoices_examples langKey_examples)
  show ?thesis
    unfolding mount_def r by (simp add: subscribe_def cap0_fields name_examples)
qed





section \<open>Voice discovery\<close>








section \<open>Selection and parameters\<close>

lemma groupVoices_key_nonempty:
  assumes "groupVoices dn vs = Inr g" and "map_of g k = Some grp"
  shows "k \<noteq> []"
proof -
  from assms have "Inr k \<in> langKey dn ` set vs"
    by (simp add: map_of_groupVoices [OF assms(1)] split: if_splits)
  then obtain v where "langKey dn v = Inr k" by force
  then show ?thesis by (rule langKey_Inr_nonempty)
qed

text \<open>
  C3. For every catalog the grouping builds and every key present in it with a
  non-empty group, changing the selected language to that key makes the selected
  voice name the name of the first voice of that group. The change handler of the
  language menu fires when the user picks another option, so the key differs from the
  one selected before; setting the key already selected updates nothing.
\<close>

theorem language_change_selects_first_voice:
  assumes "groupVoices dn vs = Inr (languages s)"
    and "map_of (languages s) k = Some (v # rest)"
    and "k \<noteq> selectedLanguage s"
  shows "selectedLanguage (onLanguageChange k s) = k
    \<and> selectedVoice (onLanguageChange k s) = name v"
proof -
  from assms(1,2) have "k \<noteq> []" by (rule groupVoices_key_nonempty)
  with assms(2,3) show ?thesis
    by (simp add: onLanguageChange_def languageEffect_def)
qed

theorem language_change_selects_first_voice_witness:
  "selectedVoice (mount dn0 (Some cap0)) = ''Alice''
   \<and> selectedLanguage (onLanguageChange ''French (fr)'' (mount dn0 (Some cap0))) = ''French (fr)''
   \<and> selectedVoice (onLanguageChange ''French (fr)'' (mount dn0 (Some cap0))) = ''Claire''"
proof -
  let ?s = "mount dn0 (Some cap0)"
  have a: "groupVoices dn0 [alice, claire, bob, tlh] = Inr (languages ?s)"
    by (simp add: mount_cap0 groupVoices_examples)
  have b: "map_of (languages ?s) ''French (fr)'' = Some (claire # [])"
    by (simp add: mount_cap0)
  have c: "''French (fr)'' \<noteq> selectedLanguage ?s"
    by (simp add: mount_cap0)
  show ?thesis
    using language_change_selects_first_voice [OF a b c]
    by (simp add: name_examples) (simp add: mount_cap0)
qed

lemma voiceSelectDelivers_in_group:
  assumes "voiceSelectDelivers n s"
  shows "n \<in> set (map name (currentGroup s))"
proof (cases "map_of (languages s) (selectedLanguage s)")
  case None
  with assms show ?thesis
    by (auto simp: voiceSelectDelivers_def voiceSelectDisabled_def voiceOptions_def
        shownOption_def split: if_splits)
next
  case (Some grp)
  with assms show ?thesis
    by (auto simp: voiceSelectDelivers_def voiceSelectDisabled_def voiceOptions_def
        currentGroup_def split: if_splits)
qed

lemma voiceSelectDelivers_other:
  assumes "\<not> loadingVoices s" and "selectedLanguage s \<noteq> []"
    and "selectedVoice s \<in> set (map name (currentGroup s))"
    and "n \<in> set (map name (currentGroup s))" and "n \<noteq> selectedVoice s"
  shows "voiceSelectDelivers n s"
proof (cases "map_of (languages s) (selectedLanguage s)")
  case None
  with assms(4) show ?thesis by (simp add: currentGroup_def)
next
  case (Some grp)
  with assms show ?thesis
    by (auto simp: voiceSelectDelivers_def voiceSelectDisabled_def voiceOptions_def
        currentGroup_def shownOption_def)
qed

text \<open>
  C4. The voice name is set through the voice menu, whose options are the names of
  the voices of the selected language. A name that does not occur in that list is not
  an option the menu can deliver, so an attempt to set it is ignored: the state, and
  with it the selected voice name, is unchanged. A change the menu does deliver
  carries a name of the group and stores it, and so does every other name of the
  group when the name selected is one of the group. Hence the invariant, that a
  non-empty selected voice name names a voice of the selected language, is preserved
  whatever name is attempted.
\<close>

theorem voice_change_outside_group_ignored:
  "(n \<notin> set (map name (currentGroup s)) \<longrightarrow> voiceSelectChange n s = s)
   \<and> (voiceSelectDelivers n s \<longrightarrow>
        n \<in> set (map name (currentGroup s))
        \<and> voiceSelectChange n s = s\<lparr>selectedVoice := n\<rparr>)
   \<and> (\<not> loadingVoices s \<and> selectedLanguage s \<noteq> []
        \<and> selectedVoice s \<in> set (map name (currentGroup s))
        \<and> n \<in> set (map name (currentGroup s)) \<and> n \<noteq> selectedVoice s \<longrightarrow>
        selectedVoice (voiceSelectChange n s) = n)
   \<and> (selectionInvariant s \<longrightarrow> selectionInvariant (voiceSelectChange n s))"
proof (intro conjI impI)
  assume "n \<notin> set (map name (currentGroup s))"
  then have "\<not> voiceSelectDelivers n s" using voiceSelectDelivers_in_group by blast
  then show "voiceSelectChange n s = s" by (simp add: voiceSelectChange_def)
next
  assume d: "voiceSelectDelivers n s"
  then show "n \<in> set (map name (currentGroup s))" by (rule voiceSelectDelivers_in_group)
  from d show "voiceSelectChange n s = s\<lparr>selectedVoice := n\<rparr>"
    by (simp add: voiceSelectChange_def onVoiceChange_def)
next
  assume "\<not> loadingVoices s \<and> selectedLanguage s \<noteq> []
        \<and> selectedVoice s \<in> set (map name (currentGroup s))
        \<and> n \<in> set (map name (currentGroup s)) \<and> n \<noteq> selectedVoice s"
  then have "voiceSelectDelivers n s" by (intro voiceSelectDelivers_other) simp_all
  then show "selectedVoice (voiceSelectChange n s) = n"
    by (simp add: voiceSelectChange_def onVoiceChange_def)
next
  assume i: "selectionInvariant s"
  show "selectionInvariant (voiceSelectChange n s)"
  proof (cases "voiceSelectDelivers n s")
    case True
    then have "n \<in> set (map name (currentGroup s))" by (rule voiceSelectDelivers_in_group)
    with True show ?thesis
      by (simp add: voiceSelectChange_def onVoiceChange_def selectionInvariant_def
          currentGroup_def)
  next
    case False
    with i show ?thesis by (simp add: voiceSelectChange_def)
  qed
qed

lemma currentGroup_mounted: "currentGroup (mount dn0 (Some cap0)) = [alice, bob]"
  by (simp add: mount_cap0 currentGroup_def)

theorem voice_change_outside_group_ignored_witness:
  "''Zed'' \<notin> set (map name (currentGroup (mount dn0 (Some cap0))))
   \<and> selectedVoice (mount dn0 (Some cap0)) = ''Alice''
   \<and> voiceSelectChange ''Zed'' (mount dn0 (Some cap0)) = mount dn0 (Some cap0)
   \<and> selectedVoice (voiceSelectChange ''Zed'' (mount dn0 (Some cap0))) = ''Alice''
   \<and> voiceSelectDelivers ''Bob'' (mount dn0 (Some cap0))
   \<and> selectedVoice (voiceSelectChange ''Bob'' (mount dn0 (Some cap0))) = ''Bob''
   \<and> selectionInvariant (mount dn0 (Some cap0))
   \<and> selectionInvariant (voiceSelectChange ''Bob'' (mount dn0 (Some cap0)))"
proof -
  let ?s = "mount dn0 (Some cap0)"
  note z = voice_change_outside_group_ignored [of "''Zed''" ?s]
  note b = voice_change_outside_group_ignored [of "''Bob''" ?s]
  have g: "name ` set (currentGroup ?s) = {''Alice'', ''Bob''}"
    by (simp add: currentGroup_mounted name_examples)
  have a: "selectedVoice ?s = ''Alice''" "\<not> loadingVoices ?s" "selectedLanguage ?s \<noteq> []"
    by (simp_all add: mount_cap0)
  have n: "''Zed'' \<notin> set (map name (currentGroup ?s))" by (simp add: g)
  with z have z1: "voiceSelectChange ''Zed'' ?s = ?s" by blast
  then have z2: "selectedVoice (voiceSelectChange ''Zed'' ?s) = ''Alice''" by (simp add: a)
  have d: "voiceSelectDelivers ''Bob'' ?s"
    by (rule voiceSelectDelivers_other) (simp_all add: a g)
  with b have "voiceSelectChange ''Bob'' ?s = ?s\<lparr>selectedVoice := ''Bob''\<rparr>" by blast
  then have b1: "selectedVoice (voiceSelectChange ''Bob'' ?s) = ''Bob''" by simp
  have i: "selectionInvariant ?s" by (simp add: selectionInvariant_def a g)
  with b have b2: "selectionInvariant (voiceSelectChange ''Bob'' ?s)" by blast
  from n a(1) z1 z2 d b1 i b2 show ?thesis by (intro conjI)
qed

lemma clampTo_bounds: "0.5 \<le> clampTo 0.5 2 x" "clampTo 0.5 2 x \<le> 2"
  by (simp_all add: clampTo_def)

lemma step_le: "n \<le> 15 \<Longrightarrow> 0.5 + n * 0.1 \<le> (2::real)"
  by simp

lemma step_ge: "0 \<le> n \<Longrightarrow> (0.5::real) \<le> 0.5 + n * 0.1"
  by simp

lemma snap_floor:
  fixes c :: real
  assumes "0.5 \<le> c" and "c \<le> 2"
  shows "(0::real) \<le> of_int \<lfloor>(c - 0.5) / 0.1 + 1 / 2\<rfloor>"
    and "of_int \<lfloor>(c - 0.5) / 0.1 + 1 / 2\<rfloor> \<le> (15::real)"
proof -
  have e: "(c - 0.5) / 0.1 + 1 / 2 = 10 * c - 9 / 2" by simp
  have "0 \<le> 10 * c - 9 / 2" using assms(1) by simp
  then have "0 \<le> \<lfloor>10 * c - 9 / 2\<rfloor>" by simp
  then show "(0::real) \<le> of_int \<lfloor>(c - 0.5) / 0.1 + 1 / 2\<rfloor>" unfolding e by simp
  have "10 * c - 9 / 2 < of_int 16" using assms(2) by simp
  then have "\<lfloor>10 * c - 9 / 2\<rfloor> < 16" by (simp only: floor_less_iff)
  then have "\<lfloor>10 * c - 9 / 2\<rfloor> \<le> 15" by simp
  then have "of_int \<lfloor>10 * c - 9 / 2\<rfloor> \<le> (of_int 15 :: real)" by (simp only: of_int_le_iff)
  then show "of_int \<lfloor>(c - 0.5) / 0.1 + 1 / 2\<rfloor> \<le> (15::real)" unfolding e by simp
qed

lemma rangeValue_snap:
  "rangeValue 0.5 2 0.1 x =
     0.5 + of_int \<lfloor>(clampTo 0.5 2 x - 0.5) / 0.1 + 1 / 2\<rfloor> * 0.1"
proof -
  have "0.5 + of_int \<lfloor>(clampTo 0.5 2 x - 0.5) / 0.1 + 1 / 2\<rfloor> * 0.1 \<le> (2::real)"
    by (rule step_le [OF snap_floor(2) [OF clampTo_bounds]])
  then have "\<not> 2 < 0.5 + of_int \<lfloor>(clampTo 0.5 2 x - 0.5) / 0.1 + 1 / 2\<rfloor> * (0.1::real)"
    by (simp only: not_less)
  then show ?thesis unfolding rangeValue_def Let_def by (simp only: if_False)
qed

lemma rangeValue_bounds: "0.5 \<le> rangeValue 0.5 2 0.1 x" "rangeValue 0.5 2 0.1 x \<le> 2"
  unfolding rangeValue_snap
  by (rule step_ge [OF snap_floor(1) [OF clampTo_bounds]],
      rule step_le [OF snap_floor(2) [OF clampTo_bounds]])

lemma rangeValue_above:
  assumes "2 \<le> x"
  shows "rangeValue 0.5 2 0.1 x = 2"
proof -
  have c: "clampTo 0.5 2 x = 2" using assms by (simp add: clampTo_def)
  show ?thesis unfolding rangeValue_snap c by simp
qed

lemma rangeValue_below:
  assumes "x \<le> 0.5"
  shows "rangeValue 0.5 2 0.1 x = 0.5"
proof -
  have c: "clampTo 0.5 2 x = 0.5" using assms by (auto simp: clampTo_def)
  show ?thesis unfolding rangeValue_snap c by simp
qed

lemma rangeValue_step:
  assumes "0 \<le> k" and "k \<le> 15"
  shows "rangeValue 0.5 2 0.1 (0.5 + of_int k * 0.1) = 0.5 + of_int k * 0.1"
proof -
  let ?x = "0.5 + of_int k * 0.1 :: real"
  have "(0::real) \<le> of_int k" "of_int k \<le> (15::real)" using assms by simp_all
  then have "\<not> ?x < 0.5" "\<not> 2 < ?x" by simp_all
  then have c: "clampTo 0.5 2 ?x = ?x" by (simp add: clampTo_def)
  have "(?x - 0.5) / 0.1 + 1 / 2 = of_int k + 1 / 2" by simp
  then have f: "\<lfloor>(?x - 0.5) / 0.1 + 1 / 2\<rfloor> = k" by simp
  show ?thesis unfolding rangeValue_snap c f by simp
qed

lemma rangeValue_on_step:
  "\<exists>k. 0 \<le> k \<and> k \<le> 15 \<and> rangeValue 0.5 2 0.1 x = 0.5 + of_int k * 0.1"
proof -
  let ?k = "\<lfloor>(clampTo 0.5 2 x - 0.5) / 0.1 + 1 / 2\<rfloor>"
  have b1: "(0::real) \<le> of_int ?k" by (rule snap_floor(1) [OF clampTo_bounds])
  have b2: "of_int ?k \<le> (15::real)" by (rule snap_floor(2) [OF clampTo_bounds])
  from b1 have "0 \<le> ?k" by (simp only: of_int_0_le_iff)
  moreover from b2 have "(of_int ?k :: real) \<le> of_int 15" by simp
  then have "?k \<le> 15" by (simp only: of_int_le_iff)
  moreover have "rangeValue 0.5 2 0.1 x = 0.5 + of_int ?k * 0.1" by (rule rangeValue_snap)
  ultimately show ?thesis by blast
qed

lemma rangeValue_nearest:
  "clampTo 0.5 2 x - 0.05 < rangeValue 0.5 2 0.1 x"
  "rangeValue 0.5 2 0.1 x \<le> clampTo 0.5 2 x + 0.05"
proof -
  define c where "c = clampTo 0.5 2 x"
  define y where "y = (c - 0.5) / 0.1 + 1 / 2"
  define n :: real where "n = of_int \<lfloor>y\<rfloor>"
  have y: "y = 10 * c - 9 / 2" by (simp add: y_def)
  have u: "n \<le> y" unfolding n_def by (rule of_int_floor_le)
  have l: "y < n + 1" unfolding n_def by linarith
  have r: "rangeValue 0.5 2 0.1 x = 0.5 + n * 0.1"
    unfolding n_def y_def c_def by (rule rangeValue_snap)
  from l y show "clampTo 0.5 2 x - 0.05 < rangeValue 0.5 2 0.1 x"
    unfolding r c_def [symmetric] by simp
  from u y show "rangeValue 0.5 2 0.1 x \<le> clampTo 0.5 2 x + 0.05"
    unfolding r c_def [symmetric] by simp
qed

text \<open>
  C5. The rate and the pitch are set through their sliders. For every number a
  slider is set to, the value stored lies between 0.5 and 2: a number of 2 or more is
  stored as 2 (3.5 yields the rate 2), a number of 0.5 or less as 0.5 (0.1 yields the
  pitch 0.5), and each of the sixteen steps 0.5, 0.6, ..., 2 is stored as it is. The
  value stored is always one of these steps, the one nearest to the input brought
  into the range. Nothing else in the state changes, and the setters are total: no
  input produces an error.
\<close>

theorem rate_pitch_clamped:
  "0.5 \<le> rate (rateSliderChange x s) \<and> rate (rateSliderChange x s) \<le> 2
   \<and> 0.5 \<le> pitch (pitchSliderChange x s) \<and> pitch (pitchSliderChange x s) \<le> 2
   \<and> rate (rateSliderChange 3.5 s) = 2
   \<and> pitch (pitchSliderChange 0.1 s) = 0.5
   \<and> (2 \<le> x \<longrightarrow> rate (rateSliderChange x s) = 2 \<and> pitch (pitchSliderChange x s) = 2)
   \<and> (x \<le> 0.5 \<longrightarrow> rate (rateSliderChange x s) = 0.5 \<and> pitch (pitchSliderChange x s) = 0.5)
   \<and> (\<forall>k. 0 \<le> k \<and> k \<le> 15 \<longrightarrow>
          rate (rateSliderChange (0.5 + of_int k * 0.1) s) = 0.5 + of_int k * 0.1
          \<and> pitch (pitchSliderChange (0.5 + of_int k * 0.1) s) = 0.5 + of_int k * 0.1)
   \<and> (\<exists>k. 0 \<le> k \<and> k \<le> 15 \<and> rate (rateSliderChange x s) = 0.5 + of_int k * 0.1)
   \<and> (\<exists>k. 0 \<le> k \<and> k \<le> 15 \<and> pitch (pitchSliderChange x s) = 0.5 + of_int k * 0.1)
   \<and> clampTo 0.5 2 x - 0.05 < rate (rateSliderChange x s)
   \<and> rate (rateSliderChange x s) \<le> clampTo 0.5 2 x + 0.05
   \<and> clampTo 0.5 2 x - 0.05 < pitch (pitchSliderChange x s)
   \<and> pitch (pitchSliderChange x s) \<le> clampTo 0.5 2 x + 0.05
   \<and> rateSliderChange x s = s\<lparr>rate := rate (rateSliderChange x s)\<rparr>
   \<and> pitchSliderChange x s = s\<lparr>pitch := pitch (pitchSliderChange x s)\<rparr>"
proof -
  have r: "rate (rateSliderChange y s) = rangeValue 0.5 2 0.1 y"
    and p: "pitch (pitchSliderChange y s) = rangeValue 0.5 2 0.1 y" for y
    by (simp_all add: rateSliderChange_def pitchSliderChange_def onRateChange_def
        onPitchChange_def)
  have a: "rangeValue 0.5 2 0.1 3.5 = 2" by (rule rangeValue_above) simp
  have b: "rangeValue 0.5 2 0.1 0.1 = 0.5" by (rule rangeValue_below) simp
  have f: "rateSliderChange x s = s\<lparr>rate := rate (rateSliderChange x s)\<rparr>"
    "pitchSliderChange x s = s\<lparr>pitch := pitch (pitchSliderChange x s)\<rparr>"
    by (simp_all add: rateSliderChange_def pitchSliderChange_def onRateChange_def
        onPitchChange_def)
  have 1: "0.5 \<le> rate (rateSliderChange x s)" "rate (rateSliderChange x s) \<le> 2"
    "0.5 \<le> pitch (pitchSliderChange x s)" "pitch (pitchSliderChange x s) \<le> 2"
    unfolding r p by (rule rangeValue_bounds)+
  have 2: "rate (rateSliderChange 3.5 s) = 2" "pitch (pitchSliderChange 0.1 s) = 0.5"
    unfolding r p by (rule a, rule b)
  have 3: "2 \<le> x \<longrightarrow> rate (rateSliderChange x s) = 2 \<and> pitch (pitchSliderChange x s) = 2"
    unfolding r p using rangeValue_above [of x] by blast
  have 4: "x \<le> 0.5 \<longrightarrow>
      rate (rateSliderChange x s) = 0.5 \<and> pitch (pitchSliderChange x s) = 0.5"
    unfolding r p using rangeValue_below [of x] by blast
  have 5: "\<forall>k. 0 \<le> k \<and> k \<le> 15 \<longrightarrow>
          rate (rateSliderChange (0.5 + of_int k * 0.1) s) = 0.5 + of_int k * 0.1
          \<and> pitch (pitchSliderChange (0.5 + of_int k * 0.1) s) = 0.5 + of_int k * 0.1"
    unfolding r p using rangeValue_step by blast
  have 6: "\<exists>k. 0 \<le> k \<and> k \<le> 15 \<and> rate (rateSliderChange x s) = 0.5 + of_int k * 0.1"
    "\<exists>k. 0 \<le> k \<and> k \<le> 15 \<and> pitch (pitchSliderChange x s) = 0.5 + of_int k * 0.1"
    unfolding r p by (rule rangeValue_on_step)+
  have 7: "clampTo 0.5 2 x - 0.05 < rate (rateSliderChange x s)"
    "rate (rateSliderChange x s) \<le> clampTo 0.5 2 x + 0.05"
    "clampTo 0.5 2 x - 0.05 < pitch (pitchSliderChange x s)"
    "pitch (pitchSliderChange x s) \<le> clampTo 0.5 2 x + 0.05"
    unfolding r p by (rule rangeValue_nearest)+
  from 1 2 3 4 5 6 7 f show ?thesis by (intro conjI)
qed

theorem rate_pitch_clamped_witness:
  "rate (rateSliderChange 3.5 initState) = 2
   \<and> pitch (pitchSliderChange 0.1 initState) = 0.5
   \<and> (2::real) \<le> 3.5 \<and> pitch (pitchSliderChange 3.5 initState) = 2
   \<and> (0.1::real) \<le> 0.5 \<and> rate (rateSliderChange 0.1 initState) = 0.5
   \<and> (0::int) \<le> 7 \<and> (7::int) \<le> 15 \<and> rate (rateSliderChange 1.2 initState) = 1.2
   \<and> pitch (pitchSliderChange 1.2 initState) = 1.2"
proof -
  note t = rate_pitch_clamped [of "3.5" initState]
  note u = rate_pitch_clamped [of "0.1" initState]
  from t have a: "rate (rateSliderChange 3.5 initState) = 2"
    and b: "pitch (pitchSliderChange 0.1 initState) = 0.5"
    by blast+
  have h: "(2::real) \<le> 3.5" "(0.1::real) \<le> 0.5" "(0::int) \<le> 7" "(7::int) \<le> 15"
    by simp_all
  from t h(1) have c: "pitch (pitchSliderChange 3.5 initState) = 2" by blast
  from u h(2) have d: "rate (rateSliderChange 0.1 initState) = 0.5" by blast
  from t have "\<forall>k. 0 \<le> k \<and> k \<le> 15 \<longrightarrow>
          rate (rateSliderChange (0.5 + of_int k * 0.1) initState) = 0.5 + of_int k * 0.1
          \<and> pitch (pitchSliderChange (0.5 + of_int k * 0.1) initState) = 0.5 + of_int k * 0.1"
    by blast
  from this [THEN spec, of 7] h(3,4)
  have e: "rate (rateSliderChange 1.2 initState) = 1.2"
    "pitch (pitchSliderChange 1.2 initState) = 1.2"
    by simp_all
  from a b h c d e show ?thesis by (intro conjI)
qed

section \<open>Playback\<close>

lemma submittedSinceCancel_Cancel: "submittedSinceCancel (cs @ [Cancel]) = []"
  by (simp add: submittedSinceCancel_def)

lemma submittedSinceCancel_Speak:
  "submittedSinceCancel (cs @ [Speak u]) = submittedSinceCancel cs @ [u]"
  by (simp add: submittedSinceCancel_def)

lemma submittedSinceCancel_Cancel_Speak:
  "submittedSinceCancel (cs @ [Cancel, Speak u]) = [u]"
  by (simp add: submittedSinceCancel_def)

lemma speak_calls:
  assumes "synth s = Some c" and "textS s \<noteq> []"
  shows "issuedCalls (speak s) =
           calls c @ (if speaking c then [Cancel] else []) @ [Speak (newUtterance s)]"
  using assms by (simp add: speak_def issuedCalls_def cancel_def submit_def Let_def)

lemma speak_frame:
  "textS (speak s) = textS s" "voices (speak s) = voices s"
  "selectedVoice (speak s) = selectedVoice s" "rate (speak s) = rate s"
  "pitch (speak s) = pitch s"
  by (simp_all add: speak_def Let_def split: option.splits)

lemma newUtterance_platformReports_speak:
  "newUtterance (platformReports b (speak s)) = newUtterance s"
proof -
  have "newUtterance (platformReports b t) = newUtterance t" for t
    by (simp add: newUtterance_def platformReports_def split: option.splits)
  then show ?thesis by (simp add: newUtterance_def speak_frame)
qed

lemma mount_cap0_fields:
  "synth (mount dn0 (Some cap0)) = Some (cap0\<lparr>onvoiceschanged := Some True\<rparr>)"
  "textS (mount dn0 (Some cap0)) = textS initState"
  "voices (mount dn0 (Some cap0)) = [alice, claire, bob, tlh]"
  "selectedVoice (mount dn0 (Some cap0)) = ''Alice''"
  "rate (mount dn0 (Some cap0)) = 1"
  "pitch (mount dn0 (Some cap0)) = 1"
  "isSpeaking (mount dn0 (Some cap0)) = False"
  by (simp_all add: mount_cap0 initState_def)

lemma textS_initState: "textS initState \<noteq> []"
  by (simp add: initState_def)

lemma speak_mounted:
  "speak (mount dn0 (Some cap0)) =
     (mount dn0 (Some cap0))
       \<lparr>synth := Some (cap0\<lparr>onvoiceschanged := Some True,
                            calls := [Speak (newUtterance (mount dn0 (Some cap0)))]\<rparr>),
        apiError := None\<rparr>"
  by (simp add: speak_def mount_cap0_fields textS_initState submit_def cap0_fields)

text \<open>
  C6 as stated fails. After the first load the Speak action is used twice in
  succession while the capability, whose first utterance is still pending, does not
  report that it is producing audio: no \<open>cancel\<close> is issued and both utterances stay
  with the capability, so the first is not superseded.
\<close>

theorem speak_twice_counterexample:
  "map_option speaking (synth (speak (mount dn0 (Some cap0)))) = Some False
   \<and> issuedCalls (speak (speak (mount dn0 (Some cap0)))) =
       [Speak (newUtterance (mount dn0 (Some cap0))),
        Speak (newUtterance (mount dn0 (Some cap0)))]
   \<and> submittedSinceCancel (issuedCalls (speak (speak (mount dn0 (Some cap0))))) =
       [newUtterance (mount dn0 (Some cap0)), newUtterance (mount dn0 (Some cap0))]"
proof -
  let ?s0 = "mount dn0 (Some cap0)"
  let ?u = "newUtterance ?s0"
  let ?c1 = "cap0\<lparr>onvoiceschanged := Some True, calls := [Speak ?u]\<rparr>"
  have a: "synth (speak ?s0) = Some ?c1" by (simp add: speak_mounted)
  have b: "textS (speak ?s0) \<noteq> []"
    by (simp add: speak_frame mount_cap0_fields textS_initState)
  have u: "newUtterance (speak ?s0) = ?u" by (simp add: newUtterance_def speak_frame)
  have "issuedCalls (speak (speak ?s0)) = [Speak ?u, Speak ?u]"
    by (simp add: speak_calls [OF a b] u cap0_fields)
  then show ?thesis
    by (simp add: a cap0_fields submittedSinceCancel_def)
qed

text \<open>
  C6, amended. Whenever \<open>speak\<close> runs with a text to say and a capability, it submits
  exactly one new utterance, and it calls \<open>cancel\<close> before that exactly when the
  capability reports at that moment that it is producing audio. With the report, every
  utterance submitted before is cancelled and the new one is the only utterance left
  with the capability; without it, the new utterance is added to those already there.
  Of two calls in succession the second therefore supersedes the first when the
  capability reports the audio of the first at the second call; when it does not,
  both utterances stay with the capability.
\<close>

theorem speak_cancels_when_reported:
  assumes "synth s = Some c" and "textS s \<noteq> []"
  shows "issuedCalls (speak s) =
           issuedCalls s @ (if speaking c then [Cancel] else []) @ [Speak (newUtterance s)]
    \<and> submittedSinceCancel (issuedCalls (speak s)) =
         (if speaking c then [] else submittedSinceCancel (issuedCalls s)) @ [newUtterance s]
    \<and> issuedCalls (speak (platformReports True (speak s))) =
         issuedCalls (speak s) @ [Cancel, Speak (newUtterance s)]
    \<and> submittedSinceCancel (issuedCalls (speak (platformReports True (speak s)))) =
         [newUtterance s]
    \<and> issuedCalls (speak (platformReports False (speak s))) =
         issuedCalls (speak s) @ [Speak (newUtterance s)]
    \<and> submittedSinceCancel (issuedCalls (speak (platformReports False (speak s)))) =
         submittedSinceCancel (issuedCalls (speak s)) @ [newUtterance s]"
proof -
  have one: "issuedCalls (speak t) =
        issuedCalls t @ (if speaking d then [Cancel] else []) @ [Speak (newUtterance t)]
      \<and> submittedSinceCancel (issuedCalls (speak t)) =
        (if speaking d then [] else submittedSinceCancel (issuedCalls t)) @ [newUtterance t]"
    if t: "synth t = Some d" "textS t \<noteq> []" for t d
  proof -
    have a: "issuedCalls (speak t) =
        calls d @ (if speaking d then [Cancel] else []) @ [Speak (newUtterance t)]"
      using t by (rule speak_calls)
    have b: "issuedCalls t = calls d" using t(1) by (simp add: issuedCalls_def)
    show ?thesis
      unfolding a b
      by (simp add: submittedSinceCancel_Cancel_Speak submittedSinceCancel_Speak)
  qed
  obtain c1 where c1: "synth (speak s) = Some c1"
    using assms by (simp add: speak_def Let_def)
  have two: "issuedCalls (speak (platformReports b (speak s))) =
        issuedCalls (speak s) @ (if b then [Cancel] else []) @ [Speak (newUtterance s)]
      \<and> submittedSinceCancel (issuedCalls (speak (platformReports b (speak s)))) =
        (if b then [] else submittedSinceCancel (issuedCalls (speak s))) @ [newUtterance s]"
    for b
  proof -
    let ?s1 = "platformReports b (speak s)"
    have s1: "synth ?s1 = Some (c1\<lparr>speaking := b\<rparr>)"
      by (simp add: platformReports_def c1)
    have i1: "issuedCalls ?s1 = issuedCalls (speak s)"
      by (simp add: issuedCalls_def s1 c1)
    have t1: "textS ?s1 \<noteq> []"
      using assms(2) by (simp add: platformReports_def c1 speak_frame)
    have sp: "speaking (c1\<lparr>speaking := b\<rparr>) = b" by simp
    note u1 = newUtterance_platformReports_speak [of b s]
    note o = one [OF s1 t1]
    have "issuedCalls (speak ?s1) =
        issuedCalls (speak s) @ (if b then [Cancel] else []) @ [Speak (newUtterance s)]"
      using o [THEN conjunct1] by (simp only: i1 u1 sp)
    moreover have "submittedSinceCancel (issuedCalls (speak ?s1)) =
        (if b then [] else submittedSinceCancel (issuedCalls (speak s))) @ [newUtterance s]"
      using o [THEN conjunct2] by (simp only: i1 u1 sp)
    ultimately show ?thesis by (rule conjI)
  qed
  note a = one [OF assms]
  note t = two [of True]
  note f = two [of False]
  have "issuedCalls (speak (platformReports True (speak s))) =
         issuedCalls (speak s) @ [Cancel, Speak (newUtterance s)]"
    using t [THEN conjunct1] by (simp only: if_True append_Cons append_Nil)
  moreover have "submittedSinceCancel (issuedCalls (speak (platformReports True (speak s)))) =
         [newUtterance s]"
    using t [THEN conjunct2] by (simp only: if_True append_Nil)
  moreover have "issuedCalls (speak (platformReports False (speak s))) =
         issuedCalls (speak s) @ [Speak (newUtterance s)]"
    using f [THEN conjunct1] by (simp only: if_False append_Nil)
  moreover have "submittedSinceCancel (issuedCalls (speak (platformReports False (speak s)))) =
         submittedSinceCancel (issuedCalls (speak s)) @ [newUtterance s]"
    using f [THEN conjunct2] by (simp only: if_False)
  ultimately show ?thesis using a [THEN conjunct1] a [THEN conjunct2] by (intro conjI)
qed

theorem speak_cancels_when_reported_witness:
  "issuedCalls (speak (mount dn0 (Some cap0))) = [Speak (newUtterance (mount dn0 (Some cap0)))]
   \<and> issuedCalls (speak (platformReports True (speak (mount dn0 (Some cap0))))) =
       [Speak (newUtterance (mount dn0 (Some cap0))), Cancel,
        Speak (newUtterance (mount dn0 (Some cap0)))]
   \<and> submittedSinceCancel (issuedCalls (speak (platformReports True (speak (mount dn0 (Some cap0))))))
       = [newUtterance (mount dn0 (Some cap0))]
   \<and> issuedCalls (speak (platformReports False (speak (mount dn0 (Some cap0))))) =
       [Speak (newUtterance (mount dn0 (Some cap0))),
        Speak (newUtterance (mount dn0 (Some cap0)))]"
proof -
  let ?s0 = "mount dn0 (Some cap0)"
  let ?u = "newUtterance ?s0"
  have a0: "synth ?s0 = Some (cap0\<lparr>onvoiceschanged := Some True\<rparr>)"
    by (simp add: mount_cap0_fields)
  have b0: "textS ?s0 \<noteq> []" by (simp add: mount_cap0_fields textS_initState)
  have i0: "issuedCalls ?s0 = []" by (simp add: issuedCalls_def a0 cap0_fields)
  have n0: "\<not> speaking (cap0\<lparr>onvoiceschanged := Some True\<rparr>)" by (simp add: cap0_fields)
  note t = speak_cancels_when_reported [OF a0 b0]
  have f: "issuedCalls (speak ?s0) = [Speak ?u]"
    using t [THEN conjunct1] by (simp only: i0 n0 if_False append_Nil)
  have r1: "issuedCalls (speak (platformReports True (speak ?s0))) = [Speak ?u, Cancel, Speak ?u]"
    using t [THEN conjunct2, THEN conjunct2, THEN conjunct1]
    by (simp only: f append_Cons append_Nil)
  have r2: "submittedSinceCancel (issuedCalls (speak (platformReports True (speak ?s0)))) = [?u]"
    by (rule t [THEN conjunct2, THEN conjunct2, THEN conjunct2, THEN conjunct1])
  have r3: "issuedCalls (speak (platformReports False (speak ?s0))) = [Speak ?u, Speak ?u]"
    using t [THEN conjunct2, THEN conjunct2, THEN conjunct2, THEN conjunct2, THEN conjunct1]
    by (simp only: f append_Cons append_Nil)
  from f r1 r2 r3 show ?thesis by (intro conjI)
qed

text \<open>
  C7. With the capability reference in place, \<open>stopSpeaking\<close> leaves the playback
  status idle and has called \<open>cancel\<close>, whatever the status was before and whether or
  not an utterance was active; it does so at once, no callback is involved. Nothing
  else in the state changes.
\<close>

theorem stopSpeaking_idle:
  assumes "synth s = Some c"
  shows "isSpeaking (stopSpeaking s) = False
    \<and> issuedCalls (stopSpeaking s) = issuedCalls s @ [Cancel]
    \<and> submittedSinceCancel (issuedCalls (stopSpeaking s)) = []
    \<and> stopSpeaking s = s\<lparr>synth := Some (c\<lparr>calls := calls c @ [Cancel]\<rparr>), isSpeaking := False\<rparr>"
  using assms
  by (simp add: stopSpeaking_def issuedCalls_def cancel_def submittedSinceCancel_Cancel)

theorem stopSpeaking_idle_witness:
  "isSpeaking (mount dn0 (Some cap0)) = False
   \<and> isSpeaking (stopSpeaking (mount dn0 (Some cap0))) = False
   \<and> issuedCalls (stopSpeaking (mount dn0 (Some cap0))) = [Cancel]
   \<and> isSpeaking (utteranceStarted (speak (mount dn0 (Some cap0)))) = True
   \<and> isSpeaking (stopSpeaking (utteranceStarted (speak (mount dn0 (Some cap0))))) = False
   \<and> issuedCalls (stopSpeaking (utteranceStarted (speak (mount dn0 (Some cap0))))) =
       [Speak (newUtterance (mount dn0 (Some cap0))), Cancel]"
proof -
  let ?s0 = "mount dn0 (Some cap0)"
  let ?s1 = "utteranceStarted (speak ?s0)"
  let ?c1 = "cap0\<lparr>onvoiceschanged := Some True, calls := [Speak (newUtterance ?s0)]\<rparr>"
  have a0: "synth ?s0 = Some (cap0\<lparr>onvoiceschanged := Some True\<rparr>)"
    by (simp add: mount_cap0_fields)
  have i0: "issuedCalls ?s0 = []" by (simp add: issuedCalls_def a0 cap0_fields)
  have a1: "synth ?s1 = Some ?c1" by (simp add: speak_mounted utteranceStarted_def)
  have i1: "issuedCalls ?s1 = [Speak (newUtterance ?s0)]" by (simp add: issuedCalls_def a1)
  have p: "isSpeaking ?s0 = False" "isSpeaking ?s1 = True"
    by (simp_all add: mount_cap0_fields utteranceStarted_def)
  note t0 = stopSpeaking_idle [OF a0]
  note t1 = stopSpeaking_idle [OF a1]
  have r0: "isSpeaking (stopSpeaking ?s0) = False" by (rule t0 [THEN conjunct1])
  have c0: "issuedCalls (stopSpeaking ?s0) = [Cancel]"
    using t0 [THEN conjunct2, THEN conjunct1] by (simp only: i0 append_Nil)
  have r1: "isSpeaking (stopSpeaking ?s1) = False" by (rule t1 [THEN conjunct1])
  have c1: "issuedCalls (stopSpeaking ?s1) = [Speak (newUtterance ?s0), Cancel]"
    using t1 [THEN conjunct2, THEN conjunct1] by (simp only: i1 append_Cons append_Nil)
  from p r0 c0 r1 c1 show ?thesis by (intro conjI)
qed


section \<open>The fallback timer\<close>

lemma loadVoices_empty: "availableVoices s = [] \<Longrightarrow> loadVoices dn initState s = s"
  by (simp add: loadVoices_def initState_def)

lemma availableVoices_subscribe: "availableVoices (subscribe s) = availableVoices s"
  by (simp add: availableVoices_def subscribe_def split: option.splits)

lemma subscribe_frame: "subscribe s = s\<lparr>synth := synth (subscribe s)\<rparr>"
  by (simp add: subscribe_def split: option.splits)

lemma languagesReplaced_empty: "availableVoices s = [] \<Longrightarrow> \<not> languagesReplaced dn s"
  by (simp add: languagesReplaced_def)

lemma mount_empty:
  assumes "availableVoices (initState\<lparr>synth := w\<rparr>) = []"
  shows "mount dn w = subscribe (initState\<lparr>synth := w\<rparr>)"
  using assms
  by (simp add: mount_def runLoadVoices_def loadVoices_empty languagesReplaced_empty)

lemma timeoutFired_empty:
  assumes "availableVoices s = []"
  shows "timeoutFired dn s =
           s\<lparr>loadingVoices := False,
             apiError := Some ''Unable to load voices. This may be due to browser restrictions.''\<rparr>"
proof -
  have v: "voices initState = []" and e: "apiError initState = None"
    by (simp_all add: initState_def)
  show ?thesis
    using assms
    by (simp add: timeoutFired_def timeoutCallback_def Let_def v e loadVoices_empty
        languagesReplaced_empty)
qed

text \<open>
  C8. If the capability yields no voice (or there is no capability) and no
  notification arrives, the component is still loading after the first read; when
  the timer fires, loading is cleared and the message that voices could not be loaded
  is recorded as the error; no voice is selected, so the Speak button stays disabled.
\<close>

theorem timeout_clears_loading:
  assumes "availableVoices (initState\<lparr>synth := w\<rparr>) = []"
  shows "loadingVoices (mount dn w)
    \<and> apiError (mount dn w) = None
    \<and> speakDisabled (mount dn w)
    \<and> \<not> loadingVoices (timeoutFired dn (mount dn w))
    \<and> apiError (timeoutFired dn (mount dn w)) =
        Some ''Unable to load voices. This may be due to browser restrictions.''
    \<and> voices (timeoutFired dn (mount dn w)) = []
    \<and> languages (timeoutFired dn (mount dn w)) = []
    \<and> selectedVoice (timeoutFired dn (mount dn w)) = []
    \<and> speakDisabled (timeoutFired dn (mount dn w))"
proof -
  let ?m = "subscribe (initState\<lparr>synth := w\<rparr>)"
  have m: "mount dn w = ?m" using assms by (rule mount_empty)
  have a: "availableVoices ?m = []" using assms by (simp add: availableVoices_subscribe)
  have f: "loadingVoices ?m" "apiError ?m = None" "voices ?m = []" "languages ?m = []"
    "selectedVoice ?m = []"
    by (subst subscribe_frame, simp add: initState_def)+
  show ?thesis
    unfolding m timeoutFired_empty [OF a]
    by (simp add: f speakDisabled_def)
qed

lemma availableVoices_silent: "availableVoices (initState\<lparr>synth := Some silent\<rparr>) = []"
  by (simp add: availableVoices_def silent_def)

theorem timeout_clears_loading_witness:
  "availableVoices (initState\<lparr>synth := Some silent\<rparr>) = []
   \<and> loadingVoices (mount dn0 (Some silent))
   \<and> \<not> loadingVoices (timeoutFired dn0 (mount dn0 (Some silent)))
   \<and> apiError (timeoutFired dn0 (mount dn0 (Some silent))) =
       Some ''Unable to load voices. This may be due to browser restrictions.''
   \<and> speakDisabled (timeoutFired dn0 (mount dn0 (Some silent)))"
  using availableVoices_silent timeout_clears_loading [OF availableVoices_silent, of dn0]
  by (intro conjI) (elim conjE, assumption)+

section \<open>Speaking\<close>

text \<open>
  C9. With an empty text, or without a capability reference, \<open>speak\<close> changes
  nothing: the whole state, which includes the record of the calls made on the
  capability, is as before.
\<close>

theorem speak_noop:
  assumes "synth s = None \<or> textS s = []"
  shows "speak s = s"
  using assms by (auto simp: speak_def split: option.splits)

theorem speak_noop_witness:
  "synth initState = None \<and> speak initState = initState
   \<and> textS (onTextChange [] (speak (mount dn0 (Some cap0)))) = []
   \<and> speak (onTextChange [] (speak (mount dn0 (Some cap0)))) =
       onTextChange [] (speak (mount dn0 (Some cap0)))"
proof -
  have a: "synth initState = None" by (simp add: initState_def)
  have b: "textS (onTextChange [] (speak (mount dn0 (Some cap0)))) = []"
    by (simp add: onTextChange_def)
  from a have "speak initState = initState" by (intro speak_noop disjI1)
  moreover from b have "speak (onTextChange [] (speak (mount dn0 (Some cap0)))) =
       onTextChange [] (speak (mount dn0 (Some cap0)))" by (intro speak_noop disjI2)
  ultimately show ?thesis using a b by (intro conjI)
qed

lemma find_name_None:
  "selectedVoice s \<notin> set (map name (voices s)) \<Longrightarrow>
   find (\<lambda>v. name v = selectedVoice s) (voices s) = None"
  by (force simp: find_None_iff)

text \<open>
  C10. When the selected voice name matches no voice of the list, \<open>speak\<close> (with a
  text to say and a capability) still submits exactly one utterance; it carries the
  text, the rate and the pitch of the state and no voice. The error state is cleared
  and nothing but the capability and the error state changes.
\<close>

theorem speak_unmatched_voice:
  assumes "synth s = Some c" and "textS s \<noteq> []"
    and "selectedVoice s \<notin> set (map name (voices s))"
  shows "issuedCalls (speak s) =
           issuedCalls s @ (if speaking c then [Cancel] else [])
             @ [Speak \<lparr>u_text = textS s, u_voice = None, u_rate = rate s, u_pitch = pitch s\<rparr>]
    \<and> apiError (speak s) = None
    \<and> speak s = s\<lparr>synth := synth (speak s), apiError := None\<rparr>"
proof -
  have u: "newUtterance s =
             \<lparr>u_text = textS s, u_voice = None, u_rate = rate s, u_pitch = pitch s\<rparr>"
    using assms(3) by (simp add: newUtterance_def find_name_None)
  have i: "issuedCalls s = calls c" using assms(1) by (simp add: issuedCalls_def)
  have "issuedCalls (speak s) =
          calls c @ (if speaking c then [Cancel] else []) @ [Speak (newUtterance s)]"
    using assms(1,2) by (rule speak_calls)
  moreover have "apiError (speak s) = None"
    and "speak s = s\<lparr>synth := synth (speak s), apiError := None\<rparr>"
    using assms(1,2) by (simp_all add: speak_def Let_def)
  ultimately show ?thesis by (simp add: u i)
qed

theorem speak_unmatched_voice_witness:
  "selectedVoice (onVoiceChange ''Zed'' (mount dn0 (Some cap0)))
     \<notin> set (map name (voices (onVoiceChange ''Zed'' (mount dn0 (Some cap0)))))
   \<and> issuedCalls (speak (onVoiceChange ''Zed'' (mount dn0 (Some cap0)))) =
       [Speak \<lparr>u_text = textS initState, u_voice = None, u_rate = 1, u_pitch = 1\<rparr>]
   \<and> apiError (speak (onVoiceChange ''Zed'' (mount dn0 (Some cap0)))) = None"
proof -
  let ?s = "onVoiceChange ''Zed'' (mount dn0 (Some cap0))"
  let ?c = "cap0\<lparr>onvoiceschanged := Some True\<rparr>"
  have a: "synth ?s = Some ?c" by (simp add: onVoiceChange_def mount_cap0_fields)
  have b: "textS ?s \<noteq> []" by (simp add: onVoiceChange_def mount_cap0_fields textS_initState)
  have c: "selectedVoice ?s \<notin> set (map name (voices ?s))"
    by (simp add: onVoiceChange_def mount_cap0_fields name_examples)
  have f: "textS ?s = textS initState" "rate ?s = 1" "pitch ?s = 1" "issuedCalls ?s = []"
    "speaking ?c = False"
    by (simp_all add: onVoiceChange_def mount_cap0_fields issuedCalls_def cap0_fields)
  note t = speak_unmatched_voice [OF a b c]
  have r1: "issuedCalls (speak ?s) =
       [Speak \<lparr>u_text = textS initState, u_voice = None, u_rate = 1, u_pitch = 1\<rparr>]"
    using t [THEN conjunct1] by (simp only: f if_False append_Nil)
  have r2: "apiError (speak ?s) = None" by (rule t [THEN conjunct2, THEN conjunct1])
  from c r1 r2 show ?thesis by (intro conjI)
qed

end
